theory Spec2Isabelle
  imports Complex_Main
begin

section \<open>Strings and command resolution of the flexible runner\<close>

text \<open>
  The flexible end-to-end runner (second script of \<^verbatim>\<open>src/test-runner.ts\<close>) reads its
  configuration from environment variables. A JavaScript string is modelled as a
  \<^typ>\<open>string\<close>, one \<^typ>\<open>char\<close> per code unit in the range 0..255. In that range the
  regular expression class \<^verbatim>\<open>\s\<close> and \<^verbatim>\<open>String.prototype.trim\<close> agree on the white
  space: TAB, LF, VT, FF, CR, SPACE and NBSP.
\<close>

definition is_space :: "char \<Rightarrow> bool" where
  "is_space c \<longleftrightarrow>
     c = CHR 0x09 \<or> c = CHR 0x0A \<or> c = CHR 0x0B \<or> c = CHR 0x0C \<or> c = CHR 0x0D \<or>
     c = CHR 0x20 \<or> c = CHR 0xA0"

text \<open>\<^verbatim>\<open>raw.trim()\<close>: white space removed at both ends.\<close>

definition js_trim :: "string \<Rightarrow> string" where
  "js_trim s = rev (dropWhile is_space (rev (dropWhile is_space s)))"

text \<open>
  \<^verbatim>\<open>raw.split(/\s+/)\<close>: the text before the next maximal run of white space is a piece,
  and the search goes on after the run; the text after the last run is the last piece.
  A leading or trailing run therefore leaves an empty piece, and the empty string splits
  into one empty piece.
\<close>

function split_ws :: "string \<Rightarrow> string list" where
  "split_ws s =
     (let piece = takeWhile (\<lambda>c. \<not> is_space c) s;
          rest = dropWhile (\<lambda>c. \<not> is_space c) s
      in if rest = [] then [piece] else piece # split_ws (dropWhile is_space rest))"
  by pat_completeness auto
termination
proof (relation "measure length")
  show "wf (measure (length :: string \<Rightarrow> nat))" by simp
next
  fix s :: string and piece rest :: string
  assume r: "rest = dropWhile (\<lambda>c. \<not> is_space c) s" and ne: "rest \<noteq> []"
  from ne obtain c cs where rc: "rest = c # cs" by (cases rest) auto
  have "length (dropWhile is_space rest) \<le> length rest"
    by (rule length_dropWhile_le)
  moreover have "\<not> \<not> is_space (hd rest)"
    using ne hd_dropWhile [of "\<lambda>c. \<not> is_space c" s] unfolding r by blast
  hence "is_space c" using rc by simp
  hence "dropWhile is_space rest = dropWhile is_space cs" using rc by simp
  hence "length (dropWhile is_space rest) < length rest"
    using rc length_dropWhile_le [of is_space cs] by simp
  moreover have "length rest \<le> length s" unfolding r by (rule length_dropWhile_le)
  ultimately show "(dropWhile is_space rest, s) \<in> measure length" by simp
qed

declare split_ws.simps [simp del]

text \<open>\<^verbatim>\<open>parseCmd(raw) = raw.split(/\s+/).filter(Boolean)\<close>: the empty pieces are dropped.\<close>

definition parseCmd :: "string \<Rightarrow> string list" where
  "parseCmd raw = filter (\<lambda>t. t \<noteq> []) (split_ws raw)"

text \<open>
  The specification's reading of a command: the maximal blocks of characters that are
  not white space, in order. This definition follows the specification's words and is
  compared with \<^const>\<open>parseCmd\<close> below.
\<close>

function tokens_spec :: "string \<Rightarrow> string list" where
  "tokens_spec s =
     (case dropWhile is_space s of
        [] \<Rightarrow> []
      | c # cs \<Rightarrow> takeWhile (\<lambda>c. \<not> is_space c) (c # cs)
                 # tokens_spec (dropWhile (\<lambda>c. \<not> is_space c) cs))"
  by pat_completeness auto
termination
proof (relation "measure length")
  show "wf (measure (length :: string \<Rightarrow> nat))" by simp
next
  fix s :: string and c :: char and cs :: string
  assume d: "dropWhile is_space s = c # cs"
  have "length (dropWhile (\<lambda>c. \<not> is_space c) cs) \<le> length cs"
    by (rule length_dropWhile_le)
  moreover have "length (c # cs) \<le> length s"
    using length_dropWhile_le [of is_space s] d by simp
  ultimately show "(dropWhile (\<lambda>c. \<not> is_space c) cs, s) \<in> measure length" by simp
qed

declare tokens_spec.simps [simp del]

text \<open>
  The environment is a partial map from variable names to values;
  \<^verbatim>\<open>env(k, d) = Deno.env.get(k) ?? d\<close> falls back to \<open>d\<close> only when the variable is
  unset (a variable set to the empty string yields the empty string).
\<close>

type_synonym environment = "string \<rightharpoonup> string"

definition env :: "environment \<Rightarrow> string \<Rightarrow> string \<Rightarrow> string" where
  "env e k d = (case e k of Some v \<Rightarrow> v | None \<Rightarrow> d)"

definition BUILD_CMD_RAW :: "environment \<Rightarrow> string" where
  "BUILD_CMD_RAW e = js_trim (env e ''BUILD_CMD'' ''deno run -A dev.ts build'')"

definition SERVE_CMD_RAW :: "environment \<Rightarrow> string" where
  "SERVE_CMD_RAW e = js_trim (env e ''SERVE_CMD'' ''deno serve -A _fresh/server.js'')"

definition TASK_CMD_RAW :: "environment \<Rightarrow> string" where
  "TASK_CMD_RAW e = env e ''TASK_CMD'' ''''"

definition TEST_CMD_RAW :: "environment \<Rightarrow> string" where
  "TEST_CMD_RAW e = env e ''TEST_CMD'' ''deno task test:e2e''"

text \<open>
  A JavaScript string is truthy when it is not empty. \<^verbatim>\<open>a || b\<close> is \<open>a\<close> when
  \<open>a\<close> is truthy and \<open>b\<close> otherwise, so
  \<^verbatim>\<open>directMode = Boolean(BUILD_CMD_RAW || SERVE_CMD_RAW)\<close> reads as follows.
\<close>

definition truthy :: "string \<Rightarrow> bool" where
  "truthy s \<longleftrightarrow> s \<noteq> []"

definition directMode :: "environment \<Rightarrow> bool" where
  "directMode e \<longleftrightarrow>
     truthy (if truthy (BUILD_CMD_RAW e) then BUILD_CMD_RAW e else SERVE_CMD_RAW e)"

text \<open>\<^verbatim>\<open>BUILD_CMD\<close> and \<^verbatim>\<open>SERVE_CMD\<close> are \<^verbatim>\<open>undefined\<close> (here \<open>None\<close>) when the raw
  string is empty (\<^verbatim>\<open>BUILD_CMD_RAW ? parseCmd(BUILD_CMD_RAW) : undefined\<close>).\<close>

definition BUILD_CMD :: "environment \<Rightarrow> string list option" where
  "BUILD_CMD e = (if truthy (BUILD_CMD_RAW e) then Some (parseCmd (BUILD_CMD_RAW e)) else None)"

definition SERVE_CMD :: "environment \<Rightarrow> string list option" where
  "SERVE_CMD e = (if truthy (SERVE_CMD_RAW e) then Some (parseCmd (SERVE_CMD_RAW e)) else None)"

definition TASK_CMD :: "environment \<Rightarrow> string list" where
  "TASK_CMD e = parseCmd (TASK_CMD_RAW e)"

definition TEST_CMD :: "environment \<Rightarrow> string list" where
  "TEST_CMD e = parseCmd (TEST_CMD_RAW e)"

section \<open>Processes, probes and the observable trace\<close>

text \<open>
  What a run does to the outside is recorded as a list of events, in order: the child
  processes it spawns (with the process id the system gave), the readiness probes and
  their results, the timers it waits for (the delay in milliseconds), the progress line
  of the prober, the signals it sends, the waits for a child's exit status that
  completed, and the exit of the supervisor itself. Console output other than the
  progress line is not recorded.
\<close>

datatype signal = SIGTERM | SIGKILL

datatype event =
    Spawned "string list" nat
  | SpawnFailed "string list"
  | Probe bool
  | Sleep rat
  | Progress nat
  | ChildKill nat signal
  | GraceWait nat nat bool
  | PidKill nat signal
  | AwaitStatus nat
  | Exit int

text \<open>
  The three places where \<^verbatim>\<open>cleanup\<close> is suspended: the race between the server's
  exit and the 5000 ms timer, the 200 ms pause after the forced kill, and the last wait
  for the exit status.
\<close>

datatype await_point = AtRace | AtPause | AtFinal

text \<open>
  Everything the scripts do not decide themselves is a field of the world they run in:
  \<^item> \<open>getenv\<close>: the environment variables;
  \<^item> \<open>SERVER_TIMEOUT_MS\<close>: \<^verbatim>\<open>Number(env("SERVER_TIMEOUT_MS", "30000"))\<close>, as an
    integer number of milliseconds (a \<^verbatim>\<open>NaN\<close> behaves as 0 and a fraction as its
    ceiling in the one comparison that reads it; an infinite value is not covered);
  \<^item> \<open>os_spawn\<close>: the process id when the system can start the command, \<open>None\<close> when
    \<^verbatim>\<open>spawn()\<close> throws (executable not found, permission denied);
  \<^item> \<open>succeeds\<close>: whether the command, run to completion, exits with status 0 (what
    a spawn and a command yield depends on the command only);
  \<^item> \<open>probe_ms\<close>: the time the round trip of the \<open>n\<close>-th probe takes, \<open>None\<close> when
    the probe never settles (\<^verbatim>\<open>fetch\<close> is called without a timeout or an abort signal,
    so a server that accepts the connection and never answers leaves the
    \<^verbatim>\<open>await\<close> pending for good);
  \<^item> \<open>probe_ready\<close>: the result of the \<open>n\<close>-th probe when it settles (\<^verbatim>\<open>fetch\<close>
    answered with an ok status; a network error is not ready);
  \<^item> \<open>sleep_lag\<close>: by how much the \<open>n\<close>-th timer of the prober fired late;
  \<^item> \<open>sigterm_throws\<close>, \<open>pidkill_throws\<close>: whether \<^verbatim>\<open>child.kill("SIGTERM")\<close> and
    \<^verbatim>\<open>Deno.kill(pid, "SIGKILL")\<close> throw (the process is already gone); the flexible
    runner ignores the first, so only the first runner reads \<open>sigterm_throws\<close>;
  \<^item> \<open>exits_in_grace\<close>: whether the server's exit wins the race against the 5000 ms
    timer;
  \<^item> \<open>signal_during\<close>: whether SIGINT or SIGTERM reaches the supervisor while its own
    call of \<^verbatim>\<open>cleanup\<close> is suspended at the given place.
\<close>

record world =
  getenv :: environment
  SERVER_TIMEOUT_MS :: int
  os_spawn :: "string list \<Rightarrow> nat option"
  succeeds :: "string list \<Rightarrow> bool"
  probe_ready :: "nat \<Rightarrow> bool"
  probe_ms :: "nat \<Rightarrow> nat option"
  sleep_lag :: "nat \<Rightarrow> nat"
  sigterm_throws :: bool
  pidkill_throws :: bool
  exits_in_grace :: bool
  signal_during :: "await_point \<Rightarrow> bool"

text \<open>The module-level variables \<^verbatim>\<open>serverChild\<close> and \<^verbatim>\<open>cleaned\<close>.\<close>

record sup_state =
  serverChild :: "nat option"
  cleaned :: bool

text \<open>
  \<^verbatim>\<open>spawnChild(cmd)\<close> starts \<^verbatim>\<open>cmd[0]\<close> with the arguments \<^verbatim>\<open>cmd.slice(1)\<close>. For the
  empty command \<^verbatim>\<open>cmd[0]\<close> is \<^verbatim>\<open>undefined\<close>, which is no program to start:
  \<^verbatim>\<open>spawn()\<close> throws. The result is the event and the child's process id, \<open>None\<close>
  when the call threw.
\<close>

definition spawnChild :: "world \<Rightarrow> string list \<Rightarrow> event \<times> nat option" where
  "spawnChild w cmd =
     (case cmd of
        [] \<Rightarrow> (SpawnFailed cmd, None)
      | prog # args \<Rightarrow>
          (case os_spawn w cmd of
             None \<Rightarrow> (SpawnFailed cmd, None)
           | Some pid \<Rightarrow> (Spawned cmd pid, Some pid)))"

text \<open>\<^verbatim>\<open>runCommandAndWait(cmd)\<close>: spawn, then wait for the status; \<open>None\<close> when the
  spawn threw, otherwise whether the command succeeded.\<close>

definition runCommandAndWait :: "world \<Rightarrow> string list \<Rightarrow> event \<times> bool option" where
  "runCommandAndWait w cmd =
     (case spawnChild w cmd of
        (ev, None) \<Rightarrow> (ev, None)
      | (ev, Some pid) \<Rightarrow> (ev, Some (succeeds w cmd)))"

subsection \<open>The readiness prober\<close>

text \<open>\<^verbatim>\<open>Math.min(200 * Math.pow(1.25, attempt), 2000)\<close>. The values below the cap are
  exact in double precision (\<open>5 ^ 10 < 2 ^ 53\<close>), so rational arithmetic gives the same
  number.\<close>

definition backoff :: "nat \<Rightarrow> rat" where
  "backoff attempt = min (200 * (5 / 4) ^ attempt) 2000"

datatype wait_result = Ready | TimedOut

text \<open>
  The loop of \<^verbatim>\<open>waitForServer\<close>, with \<open>elapsed\<close> standing for
  \<^verbatim>\<open>Date.now() - start\<close> at the loop test. The clock is read at the loop test only:
  nothing bounds the time \<^verbatim>\<open>await isReady(port, path)\<close> takes. One round takes the
  probe's round trip and then the timer, which fires no earlier than the whole
  milliseconds of its delay. The result is the events and how the call ended:
  \<open>Some Ready\<close> is the \<^verbatim>\<open>return\<close>, \<open>Some TimedOut\<close> the \<^verbatim>\<open>throw new Error(...)\<close> after
  the loop, and \<open>None\<close> a call that never returns because a probe never settles.
\<close>

function waitForServer_loop ::
  "world \<Rightarrow> int \<Rightarrow> nat \<Rightarrow> nat \<Rightarrow> event list \<times> wait_result option" where
  "waitForServer_loop w timeoutMs attempt elapsed =
     (if int elapsed < timeoutMs then
        (case probe_ms w attempt of
           None \<Rightarrow> ([], None)
         | Some ms \<Rightarrow>
             (if probe_ready w attempt then ([Probe True], Some Ready)
              else
                (case waitForServer_loop w timeoutMs (attempt + 1)
                        (elapsed + ms + nat \<lfloor>backoff attempt\<rfloor> + sleep_lag w attempt) of
                   (evs, res) \<Rightarrow>
                     ([Probe False, Sleep (backoff attempt)] @
                      (if (attempt + 1) mod 5 = 0 then [Progress (attempt + 1)] else []) @ evs,
                      res))))
      else ([], Some TimedOut))"
  by pat_completeness auto
termination
proof (relation "measure (\<lambda>(w, timeoutMs, attempt, elapsed). nat (timeoutMs - int elapsed))")
  show "wf (measure (\<lambda>(w :: world, timeoutMs, attempt :: nat, elapsed). nat (timeoutMs - int elapsed)))"
    by simp
next
  fix w :: world and timeoutMs :: int and attempt elapsed ms :: nat
  assume lt: "int elapsed < timeoutMs"
  have "(1::rat) \<le> (5 / 4) ^ attempt" by (rule one_le_power) simp
  hence "(200::rat) \<le> 200 * (5 / 4) ^ attempt" by simp
  hence "(200::rat) \<le> backoff attempt" by (simp add: backoff_def)
  hence "(200::int) \<le> \<lfloor>backoff attempt\<rfloor>" by (simp add: le_floor_iff)
  hence "200 \<le> nat \<lfloor>backoff attempt\<rfloor>" by linarith
  with lt have "nat (timeoutMs
        - int (elapsed + ms + nat \<lfloor>backoff attempt\<rfloor> + sleep_lag w attempt))
      < nat (timeoutMs - int elapsed)"
    by linarith
  thus "((w, timeoutMs, attempt + 1,
      elapsed + ms + nat \<lfloor>backoff attempt\<rfloor> + sleep_lag w attempt),
      (w, timeoutMs, attempt, elapsed))
    \<in> measure (\<lambda>(w, timeoutMs, attempt, elapsed). nat (timeoutMs - int elapsed))"
    by (simp only: in_measure case_prod_conv)
qed

declare waitForServer_loop.simps [simp del]

definition waitForServer :: "world \<Rightarrow> int \<Rightarrow> event list \<times> wait_result option" where
  "waitForServer w timeoutMs = waitForServer_loop w timeoutMs 0 0"

text \<open>
  The value of \<^verbatim>\<open>Date.now() - start\<close> at the loop test of round \<open>n\<close> (rounds are
  numbered from 0, as \<^verbatim>\<open>attempt\<close> is), in a run whose earlier probes all settled and
  failed: each earlier round added its probe's round trip, the timer's delay and the
  timer's lag.
\<close>

fun elapsed_at :: "world \<Rightarrow> nat \<Rightarrow> nat" where
  "elapsed_at w 0 = 0"
| "elapsed_at w (Suc n) =
     elapsed_at w n + (case probe_ms w n of Some ms \<Rightarrow> ms | None \<Rightarrow> 0)
       + nat \<lfloor>backoff n\<rfloor> + sleep_lag w n"

subsection \<open>The cleanup coordinator\<close>

text \<open>
  \<^verbatim>\<open>cleanup\<close> is asynchronous: between two of its \<^verbatim>\<open>await\<close>s nothing else runs, and while
  it is suspended at one, a further invocation can start (the signal handler's, or the
  main flow's own call when the running invocation is the handler's). The parameter
  \<open>r\<close> says, for each of the three places, whether such an invocation starts there and
  with which exit code. An invocation ends in \<^verbatim>\<open>Deno.exit\<close>, so the process is gone
  when it is through and the suspended invocation never resumes.

  The forced kill of lines 192 to 201: \<^verbatim>\<open>if (serverChild.pid)\<close> tests the process id
  only. The result is the events and the exit code of an invocation that started during
  the pause, if one did.
\<close>

definition force_kill ::
  "(await_point \<Rightarrow> int option) \<Rightarrow> world \<Rightarrow> nat \<Rightarrow> event list \<times> int option" where
  "force_kill r w pid =
     (if pid \<noteq> 0 then
        (if pidkill_throws w then ([PidKill pid SIGKILL], None)
         else
           (case r AtPause of
              Some c \<Rightarrow> ([PidKill pid SIGKILL], Some c)
            | None \<Rightarrow> ([PidKill pid SIGKILL, Sleep 200], None)))
      else ([], None))"

text \<open>
  The body of \<^verbatim>\<open>if (serverChild) { ... }\<close>, lines 179 to 213: SIGTERM through the
  handle (an exception is ignored), the race against the 5000 ms timer, the forced kill,
  and the wait for the final status.
\<close>

definition stop_server ::
  "(await_point \<Rightarrow> int option) \<Rightarrow> world \<Rightarrow> nat \<Rightarrow> event list \<times> int option" where
  "stop_server r w pid =
     (case r AtRace of
        Some c \<Rightarrow> ([ChildKill pid SIGTERM], Some c)
      | None \<Rightarrow>
          (case force_kill r w pid of
             (evs, Some c) \<Rightarrow>
               ([ChildKill pid SIGTERM, GraceWait pid 5000 (exits_in_grace w)] @ evs, Some c)
           | (evs, None) \<Rightarrow>
               (case r AtFinal of
                  Some c \<Rightarrow>
                    ([ChildKill pid SIGTERM, GraceWait pid 5000 (exits_in_grace w)] @ evs,
                     Some c)
                | None \<Rightarrow>
                    ([ChildKill pid SIGTERM, GraceWait pid 5000 (exits_in_grace w)] @ evs
                       @ [AwaitStatus pid],
                     None))))"

text \<open>\<^verbatim>\<open>cleanup(exitCode)\<close>: the events of the invocation, up to the exit of the process,
  and the module state it leaves.\<close>

function cleanup ::
  "(await_point \<Rightarrow> int option) \<Rightarrow> world \<Rightarrow> sup_state \<Rightarrow> int \<Rightarrow> event list \<times> sup_state" where
  "cleanup r w s exitCode =
     (if cleaned s then ([Exit exitCode], s)
      else
        (case serverChild s of
           None \<Rightarrow> ([Exit exitCode], s\<lparr>cleaned := True\<rparr>)
         | Some pid \<Rightarrow>
             (case stop_server r w pid of
                (evs, None) \<Rightarrow> (evs @ [Exit exitCode], s\<lparr>cleaned := True\<rparr>)
              | (evs, Some c) \<Rightarrow>
                  (case cleanup r w (s\<lparr>cleaned := True\<rparr>) c of
                     (evs', s') \<Rightarrow> (evs @ evs', s')))))"
  by pat_completeness auto
termination
  by (relation "measure (\<lambda>(r, w, s, exitCode). if cleaned s then 0 else 1)") auto

declare cleanup.simps [simp del]

text \<open>The signal handler installed by \<^verbatim>\<open>main\<close>: \<^verbatim>\<open>cleanup(1)\<close>.\<close>

definition sigHandler ::
  "(await_point \<Rightarrow> int option) \<Rightarrow> world \<Rightarrow> sup_state \<Rightarrow> event list \<times> sup_state" where
  "sigHandler r w s = cleanup r w s 1"

text \<open>What can interrupt the main flow's own call of \<^verbatim>\<open>cleanup\<close>: the handler, with
  exit code 1.\<close>

definition handler_calls :: "world \<Rightarrow> await_point \<Rightarrow> int option" where
  "handler_calls w p = (if signal_during w p then Some 1 else None)"

subsection \<open>The main flow of the flexible runner\<close>

text \<open>
  \<^verbatim>\<open>main\<close>, in three parts. The model follows a run in which no signal arrives before
  the main flow calls \<^verbatim>\<open>cleanup\<close> itself and in which the build and the test command
  run to completion; a signal that comes earlier runs \<^const>\<open>sigHandler\<close>.

  Lines 257 to 276: wait for the server, run the tests, clean up. An exception of
  \<^verbatim>\<open>spawnChild(TEST_CMD)\<close> is caught at line 277. When \<^verbatim>\<open>waitForServer\<close> never
  returns, the main flow stays at line 259: the trace ends there, without an exit.
\<close>

definition test_phase :: "world \<Rightarrow> sup_state \<Rightarrow> event list" where
  "test_phase w s =
     (case waitForServer w (SERVER_TIMEOUT_MS w) of
        (evs, None) \<Rightarrow> evs
      | (evs, Some TimedOut) \<Rightarrow> evs @ fst (cleanup (handler_calls w) w s 1)
      | (evs, Some Ready) \<Rightarrow>
          (case spawnChild w (TEST_CMD (getenv w)) of
             (ev, None) \<Rightarrow> evs @ ev # fst (cleanup (handler_calls w) w s 1)
           | (ev, Some tpid) \<Rightarrow>
               (if succeeds w (TEST_CMD (getenv w))
                then evs @ ev # fst (cleanup (handler_calls w) w s 0)
                else evs @ ev # fst (cleanup (handler_calls w) w s 1))))"

text \<open>Lines 241 and 244: \<^verbatim>\<open>serverChild = spawnChild(cmd, true)\<close>; an exception leaves
  \<^verbatim>\<open>serverChild\<close> unset and is caught at line 277.\<close>

definition start_server :: "world \<Rightarrow> string list \<Rightarrow> event list" where
  "start_server w cmd =
     (case spawnChild w cmd of
        (ev, None) \<Rightarrow>
          ev # fst (cleanup (handler_calls w) w \<lparr>serverChild = None, cleaned = False\<rparr> 1)
      | (ev, Some pid) \<Rightarrow>
          ev # test_phase w \<lparr>serverChild = Some pid, cleaned = False\<rparr>)"

text \<open>Lines 235 to 241: the serve command of direct mode.\<close>

definition serve_direct :: "world \<Rightarrow> event list" where
  "serve_direct w =
     (case SERVE_CMD (getenv w) of
        None \<Rightarrow> fst (cleanup (handler_calls w) w \<lparr>serverChild = None, cleaned = False\<rparr> 1)
      | Some cmd \<Rightarrow> start_server w cmd)"

definition main :: "world \<Rightarrow> event list" where
  "main w =
     (if directMode (getenv w) then
        (case BUILD_CMD (getenv w) of
           Some b \<Rightarrow>
             (case runCommandAndWait w b of
                (ev, None) \<Rightarrow>
                  ev # fst (cleanup (handler_calls w) w \<lparr>serverChild = None, cleaned = False\<rparr> 1)
              | (ev, Some ok) \<Rightarrow>
                  (if ok then ev # serve_direct w
                   else ev # fst (cleanup (handler_calls w) w
                                    \<lparr>serverChild = None, cleaned = False\<rparr> 1)))
         | None \<Rightarrow> serve_direct w)
      else start_server w (TASK_CMD (getenv w)))"

text \<open>The exit code of a run: that of the first exit in its trace.\<close>

fun exit_code :: "event list \<Rightarrow> int option" where
  "exit_code [] = None"
| "exit_code (Exit c # es) = Some c"
| "exit_code (e # es) = exit_code es"

text \<open>What the run did before the supervisor exited.\<close>

fun before_exit :: "event list \<Rightarrow> event list" where
  "before_exit [] = []"
| "before_exit (Exit c # es) = []"
| "before_exit (e # es) = e # before_exit es"

section \<open>The first runner\<close>

text \<open>
  The first script of \<^verbatim>\<open>src/test-runner.ts\<close> has a prober of its own,
  \<^verbatim>\<open>waitForServer(port, timeout)\<close>: probe, and wait 1000 ms after a probe that failed.
  It is named \<open>waitForServer_first\<close> here, the name \<open>waitForServer\<close> being taken by the
  flexible runner's. \<open>i\<close> counts the probes. Its \<^verbatim>\<open>isServerReady\<close> awaits \<^verbatim>\<open>fetch\<close>
  without a timeout too, so the result is \<open>None\<close> when a probe never settles.
\<close>

function waitForServer_first ::
  "world \<Rightarrow> int \<Rightarrow> nat \<Rightarrow> nat \<Rightarrow> event list \<times> wait_result option" where
  "waitForServer_first w timeout i elapsed =
     (if int elapsed < timeout then
        (case probe_ms w i of
           None \<Rightarrow> ([], None)
         | Some ms \<Rightarrow>
             (if probe_ready w i then ([Probe True], Some Ready)
              else
                (case waitForServer_first w timeout (i + 1)
                        (elapsed + ms + 1000 + sleep_lag w i) of
                   (evs, res) \<Rightarrow> ([Probe False, Sleep 1000] @ evs, res))))
      else ([], Some TimedOut))"
  by pat_completeness auto
termination
  by (relation "measure (\<lambda>(w, timeout, i, elapsed). nat (timeout - int elapsed))") auto

declare waitForServer_first.simps [simp del]

definition SERVER_TIMEOUT :: int where
  "SERVER_TIMEOUT = 30000"

text \<open>
  \<^verbatim>\<open>runTests\<close>. The server is spawned before the \<^verbatim>\<open>try\<close>, so an exception there is not
  caught and ends the process with code 1. \<^verbatim>\<open>Deno.exit(1)\<close> at lines 70 and 77 ends the
  process where it stands: the \<^verbatim>\<open>finally\<close> block of line 78 runs only when the tests
  passed. After it the script is through and the process ends with code 0, unless
  \<^verbatim>\<open>serverProcess.kill\<close> threw. When \<^verbatim>\<open>waitForServer\<close> never returns, the trace ends
  without an exit.
\<close>

definition runTests :: "world \<Rightarrow> event list" where
  "runTests w =
     (case os_spawn w [''deno'', ''task'', ''dev''] of
        None \<Rightarrow> [SpawnFailed [''deno'', ''task'', ''dev''], Exit 1]
      | Some pid \<Rightarrow>
          Spawned [''deno'', ''task'', ''dev''] pid #
          (case waitForServer_first w SERVER_TIMEOUT 0 0 of
             (evs, None) \<Rightarrow> evs
           | (evs, Some TimedOut) \<Rightarrow> evs @ [Exit 1]
           | (evs, Some Ready) \<Rightarrow>
               (case os_spawn w [''deno'', ''task'', ''test:e2e''] of
                  None \<Rightarrow> evs @ [SpawnFailed [''deno'', ''task'', ''test:e2e''], Exit 1]
                | Some tpid \<Rightarrow>
                    (if succeeds w [''deno'', ''task'', ''test:e2e'']
                     then evs @ [Spawned [''deno'', ''task'', ''test:e2e''] tpid,
                                 ChildKill pid SIGTERM]
                              @ (if sigterm_throws w then [Exit 1]
                                 else [AwaitStatus pid, Exit 0])
                     else evs @ [Spawned [''deno'', ''task'', ''test:e2e''] tpid, Exit 1]))))"

section \<open>Worlds for the examples\<close>

text \<open>
  A world in which every spawn succeeds and yields the process id 4242 (4243 for the
  test command \<^verbatim>\<open>deno task test:e2e\<close>), every command
  that runs to completion fails, every probe settles after 5 ms and finds the server
  not ready,
  timers fire on time, no signal arrives, and the server exits within the grace period.
  The readiness timeout is 1000 ms.
\<close>

definition sample_world :: "environment \<Rightarrow> world" where
  "sample_world e =
     \<lparr>getenv = e, SERVER_TIMEOUT_MS = 1000,
      os_spawn = (\<lambda>cmd. Some (if cmd = [''deno'', ''task'', ''test:e2e''] then 4243 else 4242)),
      succeeds = (\<lambda>cmd. False), probe_ready = (\<lambda>n. False), probe_ms = (\<lambda>n. Some 5),
      sleep_lag = (\<lambda>n. 0), sigterm_throws = False, pidkill_throws = False,
      exits_in_grace = True, signal_during = (\<lambda>p. False)\<rparr>"

text \<open>Both overrides set to the empty string, \<^verbatim>\<open>TASK_CMD\<close> unset.\<close>

definition env_overrides_empty :: environment where
  "env_overrides_empty = [''BUILD_CMD'' \<mapsto> '''', ''SERVE_CMD'' \<mapsto> '''']"


text \<open>Task mode with the task command given.\<close>

definition env_task :: environment where
  "env_task =
     [''BUILD_CMD'' \<mapsto> '''', ''SERVE_CMD'' \<mapsto> '''', ''TASK_CMD'' \<mapsto> ''deno task serve'']"


section \<open>Command resolution: theorems\<close>

lemma tokens_spec_skip: "tokens_spec (dropWhile is_space s) = tokens_spec s"
  by (simp add: tokens_spec.simps [of s] tokens_spec.simps [of "dropWhile is_space s"])

lemma tokens_spec_blank: "dropWhile is_space s = [] \<Longrightarrow> tokens_spec s = []"
  by (simp only: tokens_spec.simps [of s] list.case)

lemma tokens_spec_word:
  assumes "\<not> is_space c"
  shows "tokens_spec (c # cs) =
    (c # takeWhile (\<lambda>c. \<not> is_space c) cs) # tokens_spec (dropWhile (\<lambda>c. \<not> is_space c) cs)"
  using assms by (simp add: tokens_spec.simps [of "c # cs"])

lemma parseCmd_unfold:
  "parseCmd s =
     (let piece = takeWhile (\<lambda>c. \<not> is_space c) s;
          rest = dropWhile (\<lambda>c. \<not> is_space c) s
      in if rest = [] then filter (\<lambda>t. t \<noteq> []) [piece]
         else filter (\<lambda>t. t \<noteq> []) [piece] @ parseCmd (dropWhile is_space rest))"
  unfolding parseCmd_def by (subst split_ws.simps) (simp add: Let_def)

lemma parseCmd_tokens: "parseCmd s = tokens_spec s"
proof (induction s rule: split_ws.induct)
  case (1 s)
  show ?case
  proof (cases s)
    case Nil
    then show ?thesis by (simp add: parseCmd_unfold [of "[]"] tokens_spec_blank)
  next
    case (Cons c cs)
    show ?thesis
    proof (cases "is_space c")
      case True
      have "parseCmd (c # cs) = parseCmd (dropWhile is_space (c # cs))"
        using True by (simp add: parseCmd_unfold [of "c # cs"])
      also have "\<dots> = tokens_spec (dropWhile is_space (c # cs))"
        using "1.IH" [OF refl refl] Cons True by simp
      finally show ?thesis using Cons by (simp only: tokens_spec_skip)
    next
      case False
      let ?rest = "dropWhile (\<lambda>c. \<not> is_space c) cs"
      show ?thesis
      proof (cases "?rest = []")
        case True
        have "tokens_spec [] = []" by (rule tokens_spec_blank) simp
        hence t: "tokens_spec ?rest = []" by (simp only: True)
        have "parseCmd (c # cs) = [c # takeWhile (\<lambda>c. \<not> is_space c) cs]"
          using False True by (simp add: parseCmd_unfold [of "c # cs"] Let_def)
        thus ?thesis unfolding Cons by (simp add: tokens_spec_word [OF False] t)
      next
        case ne: False
        have ih: "parseCmd (dropWhile is_space ?rest) = tokens_spec (dropWhile is_space ?rest)"
          using "1.IH" [OF refl refl] Cons False ne by simp
        have p: "parseCmd (c # cs) =
            (c # takeWhile (\<lambda>c. \<not> is_space c) cs) # parseCmd (dropWhile is_space ?rest)"
          using False ne by (auto simp add: parseCmd_unfold [of "c # cs"] Let_def)
        show ?thesis unfolding Cons p ih
          by (simp add: tokens_spec_word [OF False] tokens_spec_skip)
      qed
    qed
  qed
qed

lemma concat_tokens_spec: "concat (tokens_spec s) = filter (\<lambda>c. \<not> is_space c) s"
proof (induction s rule: tokens_spec.induct)
  case (1 s)
  show ?case
  proof (cases "dropWhile is_space s")
    case Nil
    hence "\<forall>c\<in>set s. is_space c" by (simp add: dropWhile_eq_Nil_conv)
    hence "filter (\<lambda>c. \<not> is_space c) s = []" by (simp add: filter_empty_conv)
    thus ?thesis using Nil by (simp only: tokens_spec_blank concat.simps)
  next
    case (Cons c cs)
    have c: "\<not> is_space c" using hd_dropWhile [of is_space s] Cons by auto
    have split: "s = takeWhile is_space s @ c # cs" using Cons takeWhile_dropWhile_id [of is_space s] by simp
    have "filter (\<lambda>c. \<not> is_space c) (takeWhile is_space s) = []"
      by (auto simp: filter_empty_conv dest: set_takeWhileD)
    hence f1: "filter (\<lambda>c. \<not> is_space c) s = c # filter (\<lambda>c. \<not> is_space c) cs"
      using c by (subst split) simp
    have "filter (\<lambda>c. \<not> is_space c) cs =
       filter (\<lambda>c. \<not> is_space c) (takeWhile (\<lambda>c. \<not> is_space c) cs @ dropWhile (\<lambda>c. \<not> is_space c) cs)"
      by simp
    also have "\<dots> = takeWhile (\<lambda>c. \<not> is_space c) cs @ filter (\<lambda>c. \<not> is_space c) (dropWhile (\<lambda>c. \<not> is_space c) cs)"
      by (simp only: filter_append) (auto simp: filter_id_conv dest: set_takeWhileD)
    finally have f2: "filter (\<lambda>c. \<not> is_space c) cs =
        takeWhile (\<lambda>c. \<not> is_space c) cs @ concat (tokens_spec (dropWhile (\<lambda>c. \<not> is_space c) cs))"
      using "1.IH" [OF Cons] by simp
    have "tokens_spec s = tokens_spec (c # cs)" using tokens_spec_skip [of s] Cons by simp
    thus ?thesis using c f1 f2 by (simp add: tokens_spec_word)
  qed
qed

text \<open>
  C9. For every raw string, \<^const>\<open>parseCmd\<close> yields the maximal blocks of characters that
  are not white space, in order: the string split on runs of white space, without the
  empty pieces. A string of white space only yields the empty command. No character but
  white space separates or is dropped: the tokens put together are the string without
  its white space, so quotes stay where they are and do not group words.
\<close>

theorem parseCmd_splits_on_whitespace:
  "parseCmd raw = tokens_spec raw \<and>
   (list_all is_space raw \<longrightarrow> parseCmd raw = []) \<and>
   concat (parseCmd raw) = filter (\<lambda>c. \<not> is_space c) raw \<and>
   [] \<notin> set (parseCmd raw)"
proof -
  have blank: "list_all is_space raw \<longrightarrow> parseCmd raw = []"
  proof
    assume "list_all is_space raw"
    hence "dropWhile is_space raw = []" by (simp add: list_all_iff)
    thus "parseCmd raw = []" by (simp only: parseCmd_tokens tokens_spec_blank)
  qed
  have "[] \<notin> set (parseCmd raw)" by (simp add: parseCmd_def)
  with blank show ?thesis by (simp add: parseCmd_tokens concat_tokens_spec)
qed

theorem parseCmd_splits_on_whitespace_witness:
  "list_all is_space [CHR 0x20, CHR 0x09, CHR 0x20] \<and>
   parseCmd [CHR 0x20, CHR 0x09, CHR 0x20] = [] \<and>
   parseCmd ''run '' = [''run'']"
proof -
  have b: "list_all is_space [CHR 0x20, CHR 0x09, CHR 0x20]" by (simp add: is_space_def)
  have "parseCmd ''run '' = tokens_spec ''run ''"
    using parseCmd_splits_on_whitespace [of "''run ''"] by blast
  also have "\<dots> = [''run'']" by code_simp
  finally show ?thesis using b parseCmd_splits_on_whitespace [of "[CHR 0x20, CHR 0x09, CHR 0x20]"]
    by blast
qed

lemma parseCmd_quotes_example:
  "parseCmd ''sh -c \"a b\"'' = [''sh'', ''-c'', ''\"a'', ''b\"'']"
  by code_simp

lemma tokens_spec_trailing:
  "\<forall>c\<in>set ws. is_space c \<Longrightarrow> tokens_spec (xs @ ws) = tokens_spec xs"
proof (induction xs rule: tokens_spec.induct)
  case (1 s)
  have wsb: "dropWhile is_space ws = []" using "1.prems" by simp
  have ws_take: "takeWhile (\<lambda>c. \<not> is_space c) ws = []"
    using "1.prems" by (cases ws) auto
  show ?case
  proof (cases "dropWhile is_space s")
    case Nil
    hence "\<forall>c\<in>set s. is_space c" by (simp add: dropWhile_eq_Nil_conv)
    hence "dropWhile is_space (s @ ws) = []" using "1.prems" by (auto simp: dropWhile_eq_Nil_conv)
    thus ?thesis using Nil by (simp only: tokens_spec_blank)
  next
    case (Cons c cs)
    have c: "\<not> is_space c" using hd_dropWhile [of is_space s] Cons by auto
    have "c \<in> set s" using Cons set_dropWhileD [of c is_space s] by simp
    hence d: "dropWhile is_space (s @ ws) = c # cs @ ws"
      using c Cons dropWhile_append1 [of c s is_space ws] by simp
    have l: "tokens_spec (s @ ws) = tokens_spec (c # cs @ ws)"
      using tokens_spec_skip [of "s @ ws"] d by simp
    have r: "tokens_spec s = tokens_spec (c # cs)"
      using tokens_spec_skip [of s] Cons by simp
    show ?thesis
    proof (cases "\<exists>x\<in>set cs. is_space x")
      case True
      then obtain x where x: "x \<in> set cs" "\<not> \<not> is_space x" by auto
      have t: "takeWhile (\<lambda>c. \<not> is_space c) (cs @ ws) = takeWhile (\<lambda>c. \<not> is_space c) cs"
        using x by (rule takeWhile_append1)
      have dd: "dropWhile (\<lambda>c. \<not> is_space c) (cs @ ws) = dropWhile (\<lambda>c. \<not> is_space c) cs @ ws"
        using x by (rule dropWhile_append1)
      have ih: "tokens_spec (dropWhile (\<lambda>c. \<not> is_space c) cs @ ws) =
          tokens_spec (dropWhile (\<lambda>c. \<not> is_space c) cs)"
        using "1.IH" [OF Cons "1.prems"] .
      show ?thesis unfolding l r tokens_spec_word [OF c] t dd ih ..
    next
      case False
      hence all: "\<forall>x\<in>set cs. \<not> is_space x" by simp
      have t: "takeWhile (\<lambda>c. \<not> is_space c) (cs @ ws) = cs"
        using all ws_take by (simp add: takeWhile_append2)
      have dd: "dropWhile (\<lambda>c. \<not> is_space c) (cs @ ws) = dropWhile (\<lambda>c. \<not> is_space c) ws"
        using all by (simp add: dropWhile_append2)
      have e1: "tokens_spec (dropWhile (\<lambda>c. \<not> is_space c) ws) = []"
      proof (rule tokens_spec_blank)
        show "dropWhile is_space (dropWhile (\<lambda>c. \<not> is_space c) ws) = []"
          using "1.prems" by (auto simp: dropWhile_eq_Nil_conv dest: set_dropWhileD)
      qed
      have t2: "takeWhile (\<lambda>c. \<not> is_space c) cs = cs" using all by (simp add: takeWhile_eq_all_conv)
      have d2: "dropWhile (\<lambda>c. \<not> is_space c) cs = []" using all by (simp add: dropWhile_eq_Nil_conv)
      have e2: "tokens_spec [] = []" by (rule tokens_spec_blank) simp
      show ?thesis unfolding l r tokens_spec_word [OF c] t dd e1 t2 d2 e2 ..
    qed
  qed
qed

lemma parseCmd_js_trim: "parseCmd (js_trim s) = parseCmd s"
proof -
  let ?t = "dropWhile is_space s"
  let ?ws = "rev (takeWhile is_space (rev ?t))"
  have "js_trim s @ ?ws = rev (takeWhile is_space (rev ?t) @ dropWhile is_space (rev ?t))"
    by (simp only: js_trim_def rev_append)
  hence split: "js_trim s @ ?ws = ?t"
    by (simp only: takeWhile_dropWhile_id rev_rev_ident)
  have "\<forall>c\<in>set ?ws. is_space c" by (auto dest: set_takeWhileD)
  hence "tokens_spec (js_trim s @ ?ws) = tokens_spec (js_trim s)" by (rule tokens_spec_trailing)
  hence "tokens_spec (js_trim s) = tokens_spec ?t" by (simp only: split)
  thus ?thesis by (simp only: parseCmd_tokens tokens_spec_skip)
qed

lemma tokens_spec_js_trim: "tokens_spec (js_trim s) = tokens_spec s"
  using parseCmd_js_trim [of s] by (simp only: parseCmd_tokens)

text \<open>
  Trimming does not change the tokens, so each of the four commands is the token list of
  the raw value read from the environment; a build or serve command whose raw value is
  blank is absent rather than empty.
\<close>

lemma commands_are_tokens:
  "BUILD_CMD e =
     (if js_trim (env e ''BUILD_CMD'' ''deno run -A dev.ts build'') = [] then None
      else Some (tokens_spec (env e ''BUILD_CMD'' ''deno run -A dev.ts build'')))"
  "SERVE_CMD e =
     (if js_trim (env e ''SERVE_CMD'' ''deno serve -A _fresh/server.js'') = [] then None
      else Some (tokens_spec (env e ''SERVE_CMD'' ''deno serve -A _fresh/server.js'')))"
  "TASK_CMD e = tokens_spec (env e ''TASK_CMD'' '''')"
  "TEST_CMD e = tokens_spec (env e ''TEST_CMD'' ''deno task test:e2e'')"
  by (simp_all add: BUILD_CMD_def SERVE_CMD_def TASK_CMD_def TEST_CMD_def truthy_def
      BUILD_CMD_RAW_def SERVE_CMD_RAW_def TASK_CMD_RAW_def TEST_CMD_RAW_def
      tokens_spec_js_trim parseCmd_tokens)

lemma js_trim_defaults:
  "js_trim ''deno run -A dev.ts build'' \<noteq> []"
  "js_trim ''deno serve -A _fresh/server.js'' \<noteq> []"
  by (simp_all add: js_trim_def is_space_def)

text \<open>
  Task mode is in effect exactly when both overrides are set and both are blank: an
  override that is unset falls back to a default that is not empty.
\<close>

lemma task_mode_iff:
  "\<not> directMode e \<longleftrightarrow>
     (\<exists>b s. e ''BUILD_CMD'' = Some b \<and> e ''SERVE_CMD'' = Some s \<and> js_trim b = [] \<and> js_trim s = [])"
  using js_trim_defaults
  by (auto simp: directMode_def truthy_def BUILD_CMD_RAW_def SERVE_CMD_RAW_def env_def
      split: option.splits)

text \<open>
  C1. The specification puts the runner in task mode when neither \<^verbatim>\<open>BUILD_CMD\<close> nor
  \<^verbatim>\<open>SERVE_CMD\<close> is set. With the empty environment the code selects direct mode, and
  resolves the build and the serve command from the defaults.
\<close>

theorem unset_overrides_select_direct_mode:
  "directMode Map.empty \<and>
   BUILD_CMD Map.empty = Some [''deno'', ''run'', ''-A'', ''dev.ts'', ''build''] \<and>
   SERVE_CMD Map.empty = Some [''deno'', ''serve'', ''-A'', ''_fresh/server.js'']"
  by code_simp

text \<open>
  C3. The specification resolves the task command to \<^verbatim>\<open>deno task serve\<close> when \<^verbatim>\<open>TASK_CMD\<close> is
  not supplied. In task mode with \<^verbatim>\<open>TASK_CMD\<close> unset the code resolves the empty
  command.
\<close>

theorem unset_task_cmd_is_empty:
  "\<not> directMode env_overrides_empty \<and> env_overrides_empty ''TASK_CMD'' = None \<and>
   TASK_CMD env_overrides_empty = []"
  by code_simp

section \<open>The cleanup coordinator: theorems\<close>

lemma exit_code_append:
  "exit_code (xs @ ys) = (case exit_code xs of Some c \<Rightarrow> Some c | None \<Rightarrow> exit_code ys)"
  by (induction xs rule: exit_code.induct) auto

lemma before_exit_append:
  "before_exit (xs @ ys) = (case exit_code xs of Some c \<Rightarrow> before_exit xs | None \<Rightarrow> xs @ before_exit ys)"
  by (induction xs rule: before_exit.induct) (auto split: option.splits)

lemma cleanup_cleaned: "cleaned s \<Longrightarrow> cleanup r w s c = ([Exit c], s)"
  by (simp add: cleanup.simps)

lemma cleanup_state: "snd (cleanup r w s c) = s\<lparr>cleaned := True\<rparr>"
  by (simp add: cleanup.simps [of r w s c] cleanup_cleaned split: option.splits prod.splits)

lemma cleanup_no_server:
  "\<not> cleaned s \<Longrightarrow> serverChild s = None \<Longrightarrow> cleanup r w s c = ([Exit c], s\<lparr>cleaned := True\<rparr>)"
  by (simp add: cleanup.simps)

lemma cleanup_server:
  "\<not> cleaned s \<Longrightarrow> serverChild s = Some pid \<Longrightarrow>
   fst (cleanup r w s c) =
     fst (stop_server r w pid) @
     [Exit (case snd (stop_server r w pid) of None \<Rightarrow> c | Some c' \<Rightarrow> c')]"
  by (simp add: cleanup.simps [of r w s c] cleanup_cleaned split: option.splits prod.splits)

lemma exit_code_force_kill: "exit_code (fst (force_kill r w pid)) = None"
  by (simp add: force_kill_def split: option.splits)

lemma exit_code_stop_server: "exit_code (fst (stop_server r w pid)) = None"
  using exit_code_force_kill [of r w pid]
  by (auto simp: stop_server_def exit_code_append split: option.splits prod.splits)

lemma count_force_kill: "count_list (fst (force_kill r w pid)) (ChildKill p SIGTERM) = 0"
  by (simp add: force_kill_def split: option.splits)

lemma count_stop_server: "count_list (fst (stop_server r w pid)) (ChildKill p SIGTERM) \<le> 1"
  using count_force_kill [of r w pid p]
  by (auto simp: stop_server_def split: option.splits prod.splits)

lemma sigterm_stop_server: "hd (fst (stop_server r w pid)) = ChildKill pid SIGTERM \<and> fst (stop_server r w pid) \<noteq> []"
  by (auto simp: stop_server_def split: option.splits prod.splits)

text \<open>
  C5. Whatever the state, an invocation of \<^verbatim>\<open>cleanup\<close> leaves the flag set and changes
  nothing else, so the flag goes from false to true on the first invocation and is never
  reset. An invocation that finds the flag set does nothing but exit with its own code;
  this holds for every invocation that follows a first one, in any world and with any
  exit code. In the events of an invocation, the ones of an invocation that interrupts
  it included, SIGTERM is sent to the server at most once.
\<close>

theorem cleanup_runs_once:
  "snd (cleanup r w s c) = s\<lparr>cleaned := True\<rparr> \<and>
   (cleaned s \<longrightarrow> cleanup r w s c = ([Exit c], s)) \<and>
   cleanup r' w' (snd (cleanup r w s c)) c' = ([Exit c'], snd (cleanup r w s c)) \<and>
   count_list (fst (cleanup r w s c)) (ChildKill pid SIGTERM) \<le> 1"
proof -
  have "count_list (fst (cleanup r w s c)) (ChildKill pid SIGTERM) \<le> 1"
  proof (cases "cleaned s")
    case True
    then show ?thesis by (simp add: cleanup_cleaned)
  next
    case False
    show ?thesis
    proof (cases "serverChild s")
      case None
      with False show ?thesis by (simp add: cleanup_no_server)
    next
      case (Some p)
      with False show ?thesis using count_stop_server [of r w p pid]
        by (simp add: cleanup_server)
    qed
  qed
  thus ?thesis by (simp add: cleanup_state cleanup_cleaned)
qed

theorem cleanup_runs_once_witness:
  "cleaned \<lparr>serverChild = Some 4242, cleaned = True\<rparr> \<and>
   cleanup (\<lambda>p. None) (sample_world Map.empty) \<lparr>serverChild = Some 4242, cleaned = True\<rparr> 0 =
     ([Exit 0], \<lparr>serverChild = Some 4242, cleaned = True\<rparr>)"
  using cleanup_runs_once [of "\<lambda>p. None" "sample_world Map.empty"
      "\<lparr>serverChild = Some 4242, cleaned = True\<rparr>" 0]
  by simp

text \<open>
  C6. The specification has the forced kill sent only when the grace period elapses
  before the server exits. The code does not look at the outcome of the race: in a world where the
  server exits within the grace period, \<^verbatim>\<open>Deno.kill(pid, "SIGKILL")\<close> is still called:
  when the call throws because the process is gone, the wait for the final status
  follows; when it does not throw (the process id is in use), the 200 ms pause comes
  first.
\<close>

theorem force_kill_ignores_race:
  "exits_in_grace (sample_world Map.empty) \<and>
   fst (cleanup (\<lambda>p. None) (sample_world Map.empty\<lparr>pidkill_throws := True\<rparr>)
          \<lparr>serverChild = Some 4242, cleaned = False\<rparr> 0) =
     [ChildKill 4242 SIGTERM, GraceWait 4242 5000 True, PidKill 4242 SIGKILL,
      AwaitStatus 4242, Exit 0] \<and>
   fst (cleanup (\<lambda>p. None) (sample_world Map.empty)
          \<lparr>serverChild = Some 4242, cleaned = False\<rparr> 0) =
     [ChildKill 4242 SIGTERM, GraceWait 4242 5000 True, PidKill 4242 SIGKILL, Sleep 200,
      AwaitStatus 4242, Exit 0]"
  by (simp add: cleanup.simps stop_server_def force_kill_def sample_world_def)

text \<open>
  Whenever the race is over and the process id is not 0, the forced kill is sent.
\<close>

lemma force_kill_unconditional:
  "pid \<noteq> 0 \<Longrightarrow> r AtRace = None \<Longrightarrow> PidKill pid SIGKILL \<in> set (fst (stop_server r w pid))"
  by (auto simp: stop_server_def force_kill_def split: option.splits prod.splits)

section \<open>The first runner: theorems\<close>

text \<open>
  C2. The specification has a termination signal sent to the server on every exit path.
  In the first runner, when the server is ready at once and the tests fail, the run ends
  with \<^verbatim>\<open>Deno.exit(1)\<close> and no signal has been sent to the server; the same holds when
  the server never becomes ready and the prober times out.
\<close>

theorem first_runner_skips_finally:
  "runTests (sample_world Map.empty\<lparr>probe_ready := (\<lambda>n. True)\<rparr>) =
     [Spawned [''deno'', ''task'', ''dev''] 4242, Probe True,
      Spawned [''deno'', ''task'', ''test:e2e''] 4243, Exit 1] \<and>
   ChildKill 4242 SIGTERM \<notin> set (runTests (sample_world Map.empty\<lparr>probe_ready := (\<lambda>n. True)\<rparr>)) \<and>
   Spawned [''deno'', ''task'', ''dev''] 4242 \<in> set (runTests (sample_world Map.empty)) \<and>
   exit_code (runTests (sample_world Map.empty)) = Some 1 \<and>
   ChildKill 4242 SIGTERM \<notin> set (runTests (sample_world Map.empty))"
  by (simp add: runTests_def sample_world_def SERVER_TIMEOUT_def waitForServer_first.simps)

lemma first_loop_no_kill:
  "ChildKill p sg \<notin> set (fst (waitForServer_first w t i e))"
proof (induction w t i e rule: waitForServer_first.induct)
  case (1 w timeout i elapsed)
  show ?case
    using 1 by (subst waitForServer_first.simps) (auto split: prod.splits option.splits)
qed

text \<open>
  In the first runner a signal is sent to the server only after the tests have passed:
  on every other path the process is gone before the \<^verbatim>\<open>finally\<close> block.
\<close>

lemma first_runner_sigterm_only_after_success:
  assumes "ChildKill p sg \<in> set (runTests w)"
  shows "succeeds w [''deno'', ''task'', ''test:e2e''] \<and> sg = SIGTERM \<and>
         os_spawn w [''deno'', ''task'', ''dev''] = Some p"
proof -
  obtain evs res where l: "waitForServer_first w SERVER_TIMEOUT 0 0 = (evs, res)"
    by (cases "waitForServer_first w SERVER_TIMEOUT 0 0")
  have nk: "ChildKill p sg \<notin> set evs"
    using first_loop_no_kill [of p sg w SERVER_TIMEOUT 0 0] l by simp
  show ?thesis
  proof (cases "os_spawn w [''deno'', ''task'', ''dev'']")
    case None
    with assms show ?thesis by (simp add: runTests_def)
  next
    case srv: (Some pid)
    show ?thesis
    proof (cases res)
      case None
      with assms srv l nk show ?thesis by (simp add: runTests_def)
    next
      case res: (Some r)
      show ?thesis
      proof (cases r)
        case TimedOut
        with assms srv res l nk show ?thesis by (simp add: runTests_def)
      next
        case Ready
        show ?thesis
        proof (cases "os_spawn w [''deno'', ''task'', ''test:e2e'']")
          case None
          with assms srv res l nk Ready show ?thesis by (simp add: runTests_def)
        next
          case t: (Some tpid)
          with assms srv res l nk Ready show ?thesis
            by (cases "succeeds w [''deno'', ''task'', ''test:e2e'']"; cases "sigterm_throws w")
               (simp_all add: runTests_def)
        qed
      qed
    qed
  qed
qed

lemma first_runner_sigterm_example:
  "ChildKill 4242 SIGTERM
     \<in> set (runTests (sample_world Map.empty\<lparr>probe_ready := (\<lambda>n. True), succeeds := (\<lambda>cmd. True)\<rparr>)) \<and>
   succeeds (sample_world Map.empty\<lparr>probe_ready := (\<lambda>n. True), succeeds := (\<lambda>cmd. True)\<rparr>)
     [''deno'', ''task'', ''test:e2e'']"
proof -
  have a: "ChildKill 4242 SIGTERM
     \<in> set (runTests (sample_world Map.empty\<lparr>probe_ready := (\<lambda>n. True), succeeds := (\<lambda>cmd. True)\<rparr>))"
    by (simp add: runTests_def sample_world_def SERVER_TIMEOUT_def waitForServer_first.simps)
  from first_runner_sigterm_only_after_success [OF a] a show ?thesis by blast
qed

section \<open>The main flow: theorems\<close>

lemma parseCmd_Nil: "parseCmd [] = []"
  by code_simp

lemma js_trim_Nil: "js_trim [] = []"
  by (simp add: js_trim_def)

text \<open>
  C10. With \<^verbatim>\<open>BUILD_CMD\<close> and \<^verbatim>\<open>SERVE_CMD\<close> set to the empty string and
  \<^verbatim>\<open>TASK_CMD\<close> unset, the runner is in task mode, the task command is empty, spawning
  it fails, and the run is exactly that failed spawn followed by the exit with code 1:
  the exception is caught, no process is started.
\<close>

theorem empty_task_cmd_exits_1:
  assumes "getenv w ''BUILD_CMD'' = Some ''''" and "getenv w ''SERVE_CMD'' = Some ''''"
    and "getenv w ''TASK_CMD'' = None"
  shows "\<not> directMode (getenv w) \<and> TASK_CMD (getenv w) = [] \<and>
         spawnChild w (TASK_CMD (getenv w)) = (SpawnFailed [], None) \<and>
         main w = [SpawnFailed [], Exit 1] \<and> exit_code (main w) = Some 1"
proof -
  have d: "\<not> directMode (getenv w)"
    using assms by (simp add: directMode_def truthy_def BUILD_CMD_RAW_def SERVE_CMD_RAW_def env_def js_trim_Nil)
  have t: "TASK_CMD (getenv w) = []"
    using assms by (simp add: TASK_CMD_def TASK_CMD_RAW_def env_def parseCmd_Nil)
  have s: "spawnChild w [] = (SpawnFailed [], None)" by (simp add: spawnChild_def)
  have "main w = [SpawnFailed [], Exit 1]"
    using d t s by (simp add: main_def start_server_def cleanup.simps)
  thus ?thesis using d t s by simp
qed

theorem empty_task_cmd_exits_1_witness:
  "getenv (sample_world env_overrides_empty) ''BUILD_CMD'' = Some '''' \<and>
   getenv (sample_world env_overrides_empty) ''SERVE_CMD'' = Some '''' \<and>
   getenv (sample_world env_overrides_empty) ''TASK_CMD'' = None \<and>
   main (sample_world env_overrides_empty) = [SpawnFailed [], Exit 1]"
proof -
  have a: "getenv (sample_world env_overrides_empty) ''BUILD_CMD'' = Some ''''"
    and b: "getenv (sample_world env_overrides_empty) ''SERVE_CMD'' = Some ''''"
    and c: "getenv (sample_world env_overrides_empty) ''TASK_CMD'' = None"
    by (simp_all add: sample_world_def env_overrides_empty_def)
  from empty_task_cmd_exits_1 [OF a b c] a b c show ?thesis by simp
qed





section \<open>The readiness prober: theorems\<close>

lemma backoff_ge: "200 \<le> nat \<lfloor>backoff attempt\<rfloor>"
proof -
  have "(1::rat) \<le> (5 / 4) ^ attempt" by (rule one_le_power) simp
  hence "(200::rat) \<le> 200 * (5 / 4) ^ attempt" by simp
  hence "(200::rat) \<le> backoff attempt" by (simp add: backoff_def)
  hence "(200::int) \<le> \<lfloor>backoff attempt\<rfloor>" by (simp add: le_floor_iff)
  thus ?thesis by linarith
qed

lemma loop_timed_out:
  "\<not> int elapsed < timeoutMs \<Longrightarrow>
   waitForServer_loop w timeoutMs attempt elapsed = ([], Some TimedOut)"
  by (simp add: waitForServer_loop.simps)

lemma loop_blocked:
  "int elapsed < timeoutMs \<Longrightarrow> probe_ms w attempt = None \<Longrightarrow>
   waitForServer_loop w timeoutMs attempt elapsed = ([], None)"
  by (simp add: waitForServer_loop.simps)

lemma loop_ready:
  "int elapsed < timeoutMs \<Longrightarrow> probe_ms w attempt = Some ms \<Longrightarrow> probe_ready w attempt \<Longrightarrow>
   waitForServer_loop w timeoutMs attempt elapsed = ([Probe True], Some Ready)"
  by (simp add: waitForServer_loop.simps)

lemma loop_retry:
  "int elapsed < timeoutMs \<Longrightarrow> probe_ms w attempt = Some ms \<Longrightarrow> \<not> probe_ready w attempt \<Longrightarrow>
   waitForServer_loop w timeoutMs attempt elapsed =
     ([Probe False, Sleep (backoff attempt)] @
      (if (attempt + 1) mod 5 = 0 then [Progress (attempt + 1)] else []) @
      fst (waitForServer_loop w timeoutMs (attempt + 1)
             (elapsed + ms + nat \<lfloor>backoff attempt\<rfloor> + sleep_lag w attempt)),
      snd (waitForServer_loop w timeoutMs (attempt + 1)
             (elapsed + ms + nat \<lfloor>backoff attempt\<rfloor> + sleep_lag w attempt)))"
  by (subst waitForServer_loop.simps) (simp add: split_beta)

lemma loop_cases:
  obtains (timed_out) "\<not> int elapsed < timeoutMs"
  | (blocked) "int elapsed < timeoutMs" "probe_ms w attempt = None"
  | (ready) ms where "int elapsed < timeoutMs" "probe_ms w attempt = Some ms" "probe_ready w attempt"
  | (retry) ms where "int elapsed < timeoutMs" "probe_ms w attempt = Some ms" "\<not> probe_ready w attempt"
  by (cases "probe_ms w attempt") auto



lemma loop_no_exit: "exit_code (fst (waitForServer_loop w timeoutMs attempt elapsed)) = None"
proof (induction w timeoutMs attempt elapsed rule: waitForServer_loop.induct)
  case (1 w timeoutMs attempt elapsed)
  show ?case
  proof (cases rule: loop_cases [where elapsed = elapsed and timeoutMs = timeoutMs and w = w and attempt = attempt])
    case timed_out
    then show ?thesis by (simp add: loop_timed_out)
  next
    case blocked
    then show ?thesis by (simp add: loop_blocked)
  next
    case (ready ms)
    then show ?thesis by (simp add: loop_ready)
  next
    case (retry ms)
    with "1.IH" show ?thesis by (simp add: loop_retry)
  qed
qed


lemma waitForServer_no_exit: "exit_code (fst (waitForServer w t)) = None"
  by (simp add: waitForServer_def loop_no_exit)

lemma forced_rounds:
  assumes "\<forall>n<k. int (elapsed_at w n) < timeoutMs \<and> probe_ms w n \<noteq> None \<and> \<not> probe_ready w n"
  shows "waitForServer_loop w timeoutMs 0 0 =
     (concat (map (\<lambda>n. [Probe False, Sleep (min (200 * (5 / 4) ^ n) 2000)] @
                        (if (n + 1) mod 5 = 0 then [Progress (n + 1)] else []))
              [0 ..< k]) @
      fst (waitForServer_loop w timeoutMs k (elapsed_at w k)),
      snd (waitForServer_loop w timeoutMs k (elapsed_at w k)))"
  using assms
proof (induction k)
  case 0
  show ?case by simp
next
  case (Suc k)
  have prev: "\<forall>n<k. int (elapsed_at w n) < timeoutMs \<and> probe_ms w n \<noteq> None \<and> \<not> probe_ready w n"
    using Suc.prems by simp
  from Suc.prems have lt: "int (elapsed_at w k) < timeoutMs" and nr: "\<not> probe_ready w k"
    by simp_all
  from Suc.prems obtain ms where ms: "probe_ms w k = Some ms" by auto
  have e: "elapsed_at w (Suc k) = elapsed_at w k + ms + nat \<lfloor>backoff k\<rfloor> + sleep_lag w k"
    using ms by simp
  have step: "waitForServer_loop w timeoutMs k (elapsed_at w k) =
     ([Probe False, Sleep (min (200 * (5 / 4) ^ k) 2000)] @
      (if (k + 1) mod 5 = 0 then [Progress (k + 1)] else []) @
      fst (waitForServer_loop w timeoutMs (Suc k) (elapsed_at w (Suc k))),
      snd (waitForServer_loop w timeoutMs (Suc k) (elapsed_at w (Suc k))))"
    unfolding e using loop_retry [OF lt ms nr] by (simp add: backoff_def)
  show ?case
    unfolding Suc.IH [OF prev] step by simp
qed

lemma elapsed_at_ge: "200 * n \<le> elapsed_at w n"
proof (induction n)
  case 0
  show ?case by simp
next
  case (Suc n)
  then show ?case using backoff_ge [of n] by simp
qed

text \<open>
  Every run of the prober has a last round: the rounds are forced one after the other as
  long as the loop test passes and the probe settles and fails, and the elapsed time
  grows by at least 200 ms a round.
\<close>

lemma rounds_end:
  "\<exists>k. (\<forall>n<k. int (elapsed_at w n) < timeoutMs \<and> probe_ms w n \<noteq> None \<and> \<not> probe_ready w n) \<and>
       \<not> (int (elapsed_at w k) < timeoutMs \<and> probe_ms w k \<noteq> None \<and> \<not> probe_ready w k)"
proof -
  let ?F = "\<lambda>n. int (elapsed_at w n) < timeoutMs \<and> probe_ms w n \<noteq> None \<and> \<not> probe_ready w n"
  have "\<not> ?F (nat timeoutMs)"
    using elapsed_at_ge [of "nat timeoutMs" w] by auto
  hence ex: "\<exists>n. \<not> ?F n" by blast
  define k where "k = (LEAST n. \<not> ?F n)"
  have "\<not> ?F k" unfolding k_def using ex by (rule LeastI_ex)
  moreover have "?F n" if "n < k" for n
    using not_less_Least [of n "\<lambda>n. \<not> ?F n"] that unfolding k_def by blast
  ultimately show ?thesis by blast
qed

text \<open>
  C8. Let the world force \<open>k\<close> rounds, numbered from 0: at the loop test of every round
  \<open>n < k\<close> the elapsed time is below the timeout, and the probe of round \<open>n\<close> settles and
  fails; and let round \<open>k\<close> not be of that kind. Then the events of \<^verbatim>\<open>waitForServer\<close>
  are exactly these \<open>k\<close> rounds, followed by the probe of round \<open>k\<close> when it succeeded.
  Round \<open>n\<close> is the failed probe, the sleep of \<open>min (200 * 1.25 ^ n) 2000\<close> milliseconds
  and, exactly when the new attempt count \<open>n + 1\<close> is a multiple of 5, the progress line
  for that count. The call throws the timeout error when the loop test of round \<open>k\<close>
  finds the timeout reached, never returns when the probe of round \<open>k\<close> never settles,
  and returns otherwise.
\<close>

theorem backoff_and_progress:
  assumes "\<forall>n<k. int (elapsed_at w n) < timeoutMs \<and> probe_ms w n \<noteq> None \<and> \<not> probe_ready w n"
    and "\<not> (int (elapsed_at w k) < timeoutMs \<and> probe_ms w k \<noteq> None \<and> \<not> probe_ready w k)"
  shows "waitForServer w timeoutMs =
     (concat (map (\<lambda>n. [Probe False, Sleep (min (200 * (5 / 4) ^ n) 2000)] @
                        (if (n + 1) mod 5 = 0 then [Progress (n + 1)] else []))
              [0 ..< k]) @
      (if int (elapsed_at w k) < timeoutMs \<and> probe_ms w k \<noteq> None then [Probe True] else []),
      if int (elapsed_at w k) < timeoutMs
      then (if probe_ms w k = None then None else Some Ready)
      else Some TimedOut)"
proof -
  have "waitForServer_loop w timeoutMs k (elapsed_at w k) =
     (if int (elapsed_at w k) < timeoutMs \<and> probe_ms w k \<noteq> None then [Probe True] else [],
      if int (elapsed_at w k) < timeoutMs
      then (if probe_ms w k = None then None else Some Ready)
      else Some TimedOut)"
  proof (cases rule: loop_cases [where elapsed = "elapsed_at w k" and timeoutMs = timeoutMs and w = w and attempt = k])
    case timed_out
    then show ?thesis by (simp add: loop_timed_out)
  next
    case blocked
    then show ?thesis by (simp add: loop_blocked)
  next
    case (ready ms)
    then show ?thesis by (simp add: loop_ready)
  next
    case (retry ms)
    with assms(2) show ?thesis by simp
  qed
  thus ?thesis unfolding waitForServer_def forced_rounds [OF assms(1)] by simp
qed

lemma sample_elapsed:
  "elapsed_at (sample_world Map.empty) 0 = 0" "elapsed_at (sample_world Map.empty) 1 = 205"
  "elapsed_at (sample_world Map.empty) 2 = 460" "elapsed_at (sample_world Map.empty) 3 = 777"
  "elapsed_at (sample_world Map.empty) 4 = 1172" "elapsed_at (sample_world Map.empty) 5 = 1665"
  "elapsed_at (sample_world Map.empty) 6 = 2280"
  by code_simp+

theorem backoff_and_progress_witness:
  "int (elapsed_at (sample_world Map.empty) 5) < 2000 \<and>
   probe_ms (sample_world Map.empty) 5 \<noteq> None \<and>
   \<not> probe_ready (sample_world Map.empty) 5 \<and>
   \<not> int (elapsed_at (sample_world Map.empty) 6) < 2000 \<and>
   waitForServer (sample_world Map.empty) 2000 =
     ([Probe False, Sleep 200, Probe False, Sleep 250, Probe False, Sleep (625 / 2),
       Probe False, Sleep (3125 / 8), Probe False, Sleep (15625 / 32), Progress 5,
       Probe False, Sleep (78125 / 128)], Some TimedOut)"
proof -
  let ?w = "sample_world Map.empty"
  have forced: "\<forall>n<6. int (elapsed_at ?w n) < 2000 \<and> probe_ms ?w n \<noteq> None \<and> \<not> probe_ready ?w n"
  proof (intro allI impI)
    fix n :: nat
    assume "n < 6"
    hence "n = 0 \<or> n = 1 \<or> n = 2 \<or> n = 3 \<or> n = 4 \<or> n = 5" by arith
    moreover have "probe_ms ?w n \<noteq> None \<and> \<not> probe_ready ?w n" by (simp add: sample_world_def)
    ultimately show "int (elapsed_at ?w n) < 2000 \<and> probe_ms ?w n \<noteq> None \<and> \<not> probe_ready ?w n"
      using sample_elapsed by auto
  qed
  have stop: "\<not> (int (elapsed_at ?w 6) < 2000 \<and> probe_ms ?w 6 \<noteq> None \<and> \<not> probe_ready ?w 6)"
    by (simp add: sample_elapsed)
  have "waitForServer ?w 2000 =
     (concat (map (\<lambda>n. [Probe False, Sleep (min (200 * (5 / 4) ^ n) 2000)] @
                        (if (n + 1) mod 5 = 0 then [Progress (n + 1)] else []))
              [0 ..< 6]) @
      (if int (elapsed_at ?w 6) < 2000 \<and> probe_ms ?w 6 \<noteq> None then [Probe True] else []),
      if int (elapsed_at ?w 6) < 2000
      then (if probe_ms ?w 6 = None then None else Some Ready)
      else Some TimedOut)" (is "_ = ?rhs")
    by (rule backoff_and_progress [OF forced stop])
  also have "?rhs =
     ([Probe False, Sleep 200, Probe False, Sleep 250, Probe False, Sleep (625 / 2),
       Probe False, Sleep (3125 / 8), Probe False, Sleep (15625 / 32), Progress 5,
       Probe False, Sleep (78125 / 128)], Some TimedOut)"
    by code_simp
  finally have run: "waitForServer ?w 2000 =
     ([Probe False, Sleep 200, Probe False, Sleep 250, Probe False, Sleep (625 / 2),
       Probe False, Sleep (3125 / 8), Probe False, Sleep (15625 / 32), Progress 5,
       Probe False, Sleep (78125 / 128)], Some TimedOut)" .
  have "probe_ms ?w 5 \<noteq> None" and "\<not> probe_ready ?w 5" by (simp_all add: sample_world_def)
  with run show ?thesis by (simp add: sample_elapsed)
qed

lemma backoff_examples:
  "backoff 0 = 200" "backoff 1 = 250" "backoff 10 = 244140625 / 131072" "backoff 11 = 2000"
  "backoff 40 = 2000"
  by code_simp+

section \<open>Exit codes of the main flow\<close>

lemma exit_code_spawnChild: "exit_code (fst (spawnChild w cmd) # es) = exit_code es"
  by (simp add: spawnChild_def split: list.splits option.splits)

lemma fst_runCommandAndWait: "fst (runCommandAndWait w cmd) = fst (spawnChild w cmd)"
  by (cases "spawnChild w cmd") (simp add: runCommandAndWait_def split: option.splits)

lemma exit_code_runCommandAndWait: "exit_code (fst (runCommandAndWait w cmd) # es) = exit_code es"
  by (simp only: fst_runCommandAndWait exit_code_spawnChild)

lemma handler_stop_server:
  "snd (stop_server (handler_calls w) w pid) = None \<or> snd (stop_server (handler_calls w) w pid) = Some 1"
  by (auto simp: stop_server_def force_kill_def handler_calls_def split: option.splits prod.splits)

lemma exit_code_cleanup:
  "exit_code (fst (cleanup r w s c)) =
     (if cleaned s then Some c
      else case serverChild s of
             None \<Rightarrow> Some c
           | Some pid \<Rightarrow> (case snd (stop_server r w pid) of None \<Rightarrow> Some c | Some c' \<Rightarrow> Some c'))"
  by (auto simp: cleanup_cleaned cleanup_no_server cleanup_server exit_code_append
      exit_code_stop_server split: option.splits)

lemma exit_code_cleanup_handler: "exit_code (fst (cleanup (handler_calls w) w s 1)) = Some 1"
proof (cases "serverChild s")
  case None
  then show ?thesis by (simp add: exit_code_cleanup)
next
  case (Some pid)
  then show ?thesis using handler_stop_server [of w pid]
    by (auto simp: exit_code_cleanup)
qed

lemma test_phase_blocked:
  assumes "snd (waitForServer w (SERVER_TIMEOUT_MS w)) = None"
  shows "test_phase w s = fst (waitForServer w (SERVER_TIMEOUT_MS w))"
  using assms by (cases "waitForServer w (SERVER_TIMEOUT_MS w)") (simp add: test_phase_def)

lemma test_phase_timeout:
  assumes "snd (waitForServer w (SERVER_TIMEOUT_MS w)) = Some TimedOut"
  shows "test_phase w s =
    fst (waitForServer w (SERVER_TIMEOUT_MS w)) @ fst (cleanup (handler_calls w) w s 1)"
  using assms by (cases "waitForServer w (SERVER_TIMEOUT_MS w)") (simp add: test_phase_def)

lemma test_phase_ready:
  assumes "snd (waitForServer w (SERVER_TIMEOUT_MS w)) = Some Ready"
  shows "test_phase w s =
    fst (waitForServer w (SERVER_TIMEOUT_MS w)) @ fst (spawnChild w (TEST_CMD (getenv w))) #
    fst (cleanup (handler_calls w) w s
           (if snd (spawnChild w (TEST_CMD (getenv w))) \<noteq> None \<and> succeeds w (TEST_CMD (getenv w))
            then 0 else 1))"
  using assms
  by (cases "waitForServer w (SERVER_TIMEOUT_MS w)"; cases "spawnChild w (TEST_CMD (getenv w))")
     (auto simp: test_phase_def)

lemma test_phase_shape:
  "(snd (waitForServer w (SERVER_TIMEOUT_MS w)) = None \<and>
      test_phase w s = fst (waitForServer w (SERVER_TIMEOUT_MS w))) \<or>
   (\<exists>pre c. test_phase w s = pre @ fst (cleanup (handler_calls w) w s c) \<and> exit_code pre = None)"
proof (cases "snd (waitForServer w (SERVER_TIMEOUT_MS w))")
  case None
  then show ?thesis by (simp add: test_phase_blocked)
next
  case (Some r)
  have ne: "exit_code (fst (waitForServer w (SERVER_TIMEOUT_MS w))) = None"
    by (rule waitForServer_no_exit)
  show ?thesis
  proof (cases r)
    case TimedOut
    with Some ne test_phase_timeout [of w s] show ?thesis by blast
  next
    case Ready
    have "exit_code (fst (waitForServer w (SERVER_TIMEOUT_MS w)) @
        [fst (spawnChild w (TEST_CMD (getenv w)))]) = None"
      using ne exit_code_spawnChild [of w "TEST_CMD (getenv w)" "[]"] by (simp add: exit_code_append)
    moreover have "test_phase w s =
        (fst (waitForServer w (SERVER_TIMEOUT_MS w)) @ [fst (spawnChild w (TEST_CMD (getenv w)))]) @
        fst (cleanup (handler_calls w) w s
           (if snd (spawnChild w (TEST_CMD (getenv w))) \<noteq> None \<and> succeeds w (TEST_CMD (getenv w))
            then 0 else 1))"
      using test_phase_ready [of w s] Some Ready by simp
    ultimately show ?thesis by blast
  qed
qed

lemma exit_code_test_phase_timeout:
  assumes "snd (waitForServer w (SERVER_TIMEOUT_MS w)) = Some TimedOut"
  shows "exit_code (test_phase w s) = Some 1"
  by (simp add: test_phase_timeout [OF assms] exit_code_append waitForServer_no_exit
      exit_code_cleanup_handler)






section \<open>The server is told to stop before the flexible runner exits\<close>

text \<open>
  Once \<^verbatim>\<open>main\<close> has spawned the server, the supervisor does not exit before SIGTERM
  has been sent to the server: either the run stays in \<^verbatim>\<open>waitForServer\<close> for good and
  never exits, or it ends in an exit that SIGTERM precedes.
\<close>

lemma server_gets_sigterm:
  assumes "spawnChild w cmd = (ev, Some pid)"
  shows "(snd (waitForServer w (SERVER_TIMEOUT_MS w)) = None \<and>
            exit_code (start_server w cmd) = None) \<or>
         (ChildKill pid SIGTERM \<in> set (before_exit (start_server w cmd)) \<and>
            exit_code (start_server w cmd) \<noteq> None)"
proof -
  let ?s = "\<lparr>serverChild = Some pid, cleaned = False\<rparr>"
  have ev: "exit_code (ev # es) = exit_code es" "before_exit (ev # es) = ev # before_exit es" for es
    using assms by (auto simp: spawnChild_def split: list.splits option.splits)
  have s: "start_server w cmd = ev # test_phase w ?s" using assms by (simp add: start_server_def)
  from test_phase_shape [of w ?s] show ?thesis
  proof
    assume "snd (waitForServer w (SERVER_TIMEOUT_MS w)) = None \<and>
      test_phase w ?s = fst (waitForServer w (SERVER_TIMEOUT_MS w))"
    thus ?thesis unfolding s ev by (simp add: waitForServer_no_exit)
  next
    assume "\<exists>pre c. test_phase w ?s = pre @ fst (cleanup (handler_calls w) w ?s c) \<and>
      exit_code pre = None"
    then obtain pre c where t: "test_phase w ?s = pre @ fst (cleanup (handler_calls w) w ?s c)"
      and pre: "exit_code pre = None" by blast
    have cl: "fst (cleanup (handler_calls w) w ?s c) =
        fst (stop_server (handler_calls w) w pid) @
        [Exit (case snd (stop_server (handler_calls w) w pid) of None \<Rightarrow> c | Some c' \<Rightarrow> c')]"
      by (rule cleanup_server) simp_all
    have st: "ChildKill pid SIGTERM \<in> set (fst (stop_server (handler_calls w) w pid))"
      using sigterm_stop_server [of "handler_calls w" w pid]
      by (metis list.set_sel(1))
    have "ChildKill pid SIGTERM \<in> set (before_exit (start_server w cmd)) \<and>
        exit_code (start_server w cmd) \<noteq> None"
      unfolding s t cl ev
      using pre st
      by (simp add: before_exit_append exit_code_append exit_code_stop_server)
    thus ?thesis ..
  qed
qed

lemma server_gets_sigterm_example:
  "spawnChild (sample_world Map.empty) [''deno'', ''task'', ''serve''] =
     (Spawned [''deno'', ''task'', ''serve''] 4242, Some 4242) \<and>
   ChildKill 4242 SIGTERM
     \<in> set (before_exit (start_server (sample_world Map.empty) [''deno'', ''task'', ''serve''])) \<and>
   exit_code (start_server (sample_world Map.empty) [''deno'', ''task'', ''serve'']) = Some 1"
proof -
  have a: "spawnChild (sample_world Map.empty) [''deno'', ''task'', ''serve''] =
     (Spawned [''deno'', ''task'', ''serve''] 4242, Some 4242)"
    by (simp add: spawnChild_def sample_world_def)
  have b: "exit_code (start_server (sample_world Map.empty) [''deno'', ''task'', ''serve'']) = Some 1"
    by code_simp
  from server_gets_sigterm [OF a] a b show ?thesis by auto
qed

text \<open>
  The signal handler, run before any other invocation of \<^verbatim>\<open>cleanup\<close> and with the
  server spawned, sends SIGTERM to the server before the process exits.
\<close>

lemma handler_sends_sigterm:
  assumes "\<not> cleaned s" and "serverChild s = Some pid"
  shows "ChildKill pid SIGTERM \<in> set (before_exit (fst (sigHandler r w s))) \<and>
         exit_code (fst (sigHandler r w s)) \<noteq> None"
proof -
  have st: "ChildKill pid SIGTERM \<in> set (fst (stop_server r w pid))"
    using sigterm_stop_server [of r w pid] by (metis list.set_sel(1))
  show ?thesis
    unfolding sigHandler_def cleanup_server [OF assms]
    using st by (simp add: before_exit_append exit_code_append exit_code_stop_server)
qed

lemma handler_sends_sigterm_example:
  "\<not> cleaned \<lparr>serverChild = Some 4242, cleaned = False\<rparr> \<and>
   ChildKill 4242 SIGTERM
     \<in> set (before_exit (fst (sigHandler (\<lambda>p. None) (sample_world Map.empty)
                \<lparr>serverChild = Some 4242, cleaned = False\<rparr>)))"
  using handler_sends_sigterm [of "\<lparr>serverChild = Some 4242, cleaned = False\<rparr>" 4242
      "\<lambda>p. None" "sample_world Map.empty"]
  by simp

section \<open>The exit code of the flexible runner\<close>

lemma exit_code_test_phase:
  "exit_code (test_phase w s) = None \<or> exit_code (test_phase w s) = Some 0 \<or>
   exit_code (test_phase w s) = Some 1"
  "exit_code (test_phase w s) = None \<Longrightarrow> snd (waitForServer w (SERVER_TIMEOUT_MS w)) = None"
  "exit_code (test_phase w s) = Some 0 \<Longrightarrow>
     snd (waitForServer w (SERVER_TIMEOUT_MS w)) = Some Ready \<and> succeeds w (TEST_CMD (getenv w))"
proof -
  have ne: "exit_code (fst (waitForServer w (SERVER_TIMEOUT_MS w))) = None"
    by (rule waitForServer_no_exit)
  have e: "exit_code (fst (spawnChild w (TEST_CMD (getenv w))) # es) = exit_code es" for es
    by (rule exit_code_spawnChild)
  have c0: "exit_code (fst (cleanup (handler_calls w) w s 0)) = Some 0 \<or>
            exit_code (fst (cleanup (handler_calls w) w s 0)) = Some 1"
  proof (cases "serverChild s")
    case None
    then show ?thesis by (simp add: exit_code_cleanup)
  next
    case (Some pid)
    then show ?thesis using handler_stop_server [of w pid] by (auto simp: exit_code_cleanup)
  qed
  have all: "(exit_code (test_phase w s) = None \<and> snd (waitForServer w (SERVER_TIMEOUT_MS w)) = None) \<or>
      exit_code (test_phase w s) = Some 1 \<or>
      (exit_code (test_phase w s) = Some 0 \<and>
       snd (waitForServer w (SERVER_TIMEOUT_MS w)) = Some Ready \<and> succeeds w (TEST_CMD (getenv w)))"
  proof (cases "snd (waitForServer w (SERVER_TIMEOUT_MS w))")
    case None
    then show ?thesis using ne by (simp add: test_phase_blocked)
  next
    case (Some r)
    show ?thesis
    proof (cases r)
      case TimedOut
      with Some show ?thesis by (simp add: exit_code_test_phase_timeout)
    next
      case Ready
      with Some c0 ne e show ?thesis
        by (auto simp: test_phase_ready exit_code_append exit_code_cleanup_handler)
    qed
  qed
  from all show "exit_code (test_phase w s) = None \<or> exit_code (test_phase w s) = Some 0 \<or>
   exit_code (test_phase w s) = Some 1" by auto
  from all show "snd (waitForServer w (SERVER_TIMEOUT_MS w)) = None"
    if "exit_code (test_phase w s) = None" using that by auto
  from all show "snd (waitForServer w (SERVER_TIMEOUT_MS w)) = Some Ready \<and> succeeds w (TEST_CMD (getenv w))"
    if "exit_code (test_phase w s) = Some 0" using that by auto
qed

text \<open>
  A run of \<^verbatim>\<open>main\<close> that exits does so with code 0 or 1, and with 0 only when the
  server became ready and the test command succeeded; a run that does not exit is one
  whose \<^verbatim>\<open>waitForServer\<close> never returns.
\<close>

lemma main_exit_codes:
  "(exit_code (main w) = None \<or> exit_code (main w) = Some 0 \<or> exit_code (main w) = Some 1) \<and>
   (exit_code (main w) = None \<longrightarrow> snd (waitForServer w (SERVER_TIMEOUT_MS w)) = None) \<and>
   (exit_code (main w) = Some 0 \<longrightarrow>
      snd (waitForServer w (SERVER_TIMEOUT_MS w)) = Some Ready \<and> succeeds w (TEST_CMD (getenv w)))"
proof -
  let ?P = "\<lambda>tr. (exit_code tr = None \<or> exit_code tr = Some 0 \<or> exit_code tr = Some 1) \<and>
   (exit_code tr = None \<longrightarrow> snd (waitForServer w (SERVER_TIMEOUT_MS w)) = None) \<and>
   (exit_code tr = Some 0 \<longrightarrow>
      snd (waitForServer w (SERVER_TIMEOUT_MS w)) = Some Ready \<and> succeeds w (TEST_CMD (getenv w)))"
  have cl: "?P (fst (cleanup (handler_calls w) w s 1))" for s
    by (simp add: exit_code_cleanup_handler)
  have tp: "?P (test_phase w s)" for s
    using exit_code_test_phase [of w s] by blast
  have ss: "?P (start_server w cmd)" for cmd
  proof (cases "spawnChild w cmd")
    case (Pair ev r)
    have "exit_code (ev # es) = exit_code es" for es
      using exit_code_spawnChild [of w cmd es] Pair by simp
    thus ?thesis using Pair cl tp
      by (cases r) (simp_all add: start_server_def)
  qed
  have sd: "?P (serve_direct w)"
    using cl ss by (cases "SERVE_CMD (getenv w)") (simp_all add: serve_direct_def)
  show ?thesis
  proof (cases "directMode (getenv w)")
    case False
    then show ?thesis using ss by (simp add: main_def)
  next
    case True
    show ?thesis
    proof (cases "BUILD_CMD (getenv w)")
      case None
      with True sd show ?thesis by (simp add: main_def)
    next
      case (Some b)
      obtain ev r where p: "runCommandAndWait w b = (ev, r)" by (cases "runCommandAndWait w b")
      have "exit_code (ev # es) = exit_code es" for es
        using exit_code_runCommandAndWait [of w b es] p by simp
      with True Some p sd cl show ?thesis
        by (cases r) (simp_all add: main_def)
    qed
  qed
qed

lemma main_exit_codes_example:
  "exit_code (main (sample_world Map.empty\<lparr>probe_ready := (\<lambda>n. True), succeeds := (\<lambda>cmd. True)\<rparr>)) = Some 0 \<and>
   succeeds (sample_world Map.empty\<lparr>probe_ready := (\<lambda>n. True), succeeds := (\<lambda>cmd. True)\<rparr>)
     (TEST_CMD (getenv (sample_world Map.empty\<lparr>probe_ready := (\<lambda>n. True), succeeds := (\<lambda>cmd. True)\<rparr>))) \<and>
   exit_code (main (sample_world env_task\<lparr>probe_ms := (\<lambda>n. None)\<rparr>)) = None \<and>
   snd (waitForServer (sample_world env_task\<lparr>probe_ms := (\<lambda>n. None)\<rparr>)
          (SERVER_TIMEOUT_MS (sample_world env_task\<lparr>probe_ms := (\<lambda>n. None)\<rparr>))) = None"
proof -
  have a: "exit_code (main (sample_world Map.empty\<lparr>probe_ready := (\<lambda>n. True), succeeds := (\<lambda>cmd. True)\<rparr>)) = Some 0"
    by code_simp
  have b: "exit_code (main (sample_world env_task\<lparr>probe_ms := (\<lambda>n. None)\<rparr>)) = None"
    by code_simp
  from main_exit_codes [of "sample_world Map.empty\<lparr>probe_ready := (\<lambda>n. True), succeeds := (\<lambda>cmd. True)\<rparr>"]
    main_exit_codes [of "sample_world env_task\<lparr>probe_ms := (\<lambda>n. None)\<rparr>"] a b
  show ?thesis by blast
qed

end
